theory Spec2Isabelle
  imports Complex_Main
begin

section \<open>Python values\<close>

text \<open>
  A Python \<open>str\<close> is a sequence of Unicode code points; \<open>len\<close> counts code points and
  \<open>ord\<close> reads one. Floats are idealised as reals, Python's unbounded \<open>int\<close> is \<open>int\<close>.
\<close>

type_synonym codepoint = nat
type_synonym pystr = "codepoint list"

definition lit :: "string \<Rightarrow> pystr" where
  \<comment> \<open>an ASCII string literal of the source\<close>
  "lit s = map of_char s"

definition ord :: "codepoint \<Rightarrow> int" where
  "ord c = int c"

definition py_range :: "int \<Rightarrow> nat list" where
  \<comment> \<open>\<open>range(n)\<close>: empty when \<open>n \<le> 0\<close>\<close>
  "py_range n = [0..<nat n]"

definition slice_bound :: "nat \<Rightarrow> int \<Rightarrow> nat" where
  \<comment> \<open>a slice index: a negative one counts from the end, and both are clipped to the string\<close>
  "slice_bound n k = (if k < 0 then nat (max 0 (int n + k)) else min n (nat k))"

definition slice :: "'a list \<Rightarrow> int \<Rightarrow> int \<Rightarrow> 'a list" where
  \<comment> \<open>\<open>s[a:b]\<close>\<close>
  "slice s a b =
     (let lo = slice_bound (length s) a; hi = slice_bound (length s) b
      in take (hi - lo) (drop lo s))"

definition startswith :: "pystr \<Rightarrow> pystr \<Rightarrow> bool" where
  "startswith s pre = (take (length pre) s = pre)"

fun substring_in :: "pystr \<Rightarrow> pystr \<Rightarrow> bool" where
  \<comment> \<open>\<open>w in s\<close> on strings: \<open>w\<close> occurs in \<open>s\<close> as a contiguous substring\<close>
  "substring_in w [] = (w = [])"
| "substring_in w (c # cs) = (startswith (c # cs) w \<or> substring_in w cs)"

fun join :: "pystr \<Rightarrow> pystr list \<Rightarrow> pystr" where
  \<comment> \<open>\<open>sep.join(xs)\<close>\<close>
  "join sep [] = []"
| "join sep [x] = x"
| "join sep (x # y # ys) = x @ sep @ join sep (y # ys)"

fun str_nat :: "nat \<Rightarrow> pystr" where
  \<comment> \<open>the decimal digits of a non-negative integer, as an f-string renders it\<close>
  "str_nat n = (if n < 10 then [48 + n] else str_nat (n div 10) @ [48 + n mod 10])"

declare str_nat.simps [simp del]

text \<open>
  What the program takes from the Python runtime rather than from its own text: the Unicode
  character database behind \<open>str.islower\<close>, \<open>str.isupper\<close>, \<open>str.isdigit\<close>, \<open>str.isalnum\<close>,
  the white space that \<open>str.strip\<close> removes, \<open>str.lower\<close> (a function of the whole string:
  a code point may lower-case to several, and the final sigma depends on its context), the
  order in which a set built from a sequence of insertions is iterated (it follows the
  string hashes of the process), and the rendering of a float by the format \<open>.1f\<close>.
  The functions below take these as a parameter, so that what is proved holds for every
  such runtime.
\<close>

record runtime =
  islower :: "codepoint \<Rightarrow> bool"
  isupper :: "codepoint \<Rightarrow> bool"
  isdigit :: "codepoint \<Rightarrow> bool"
  isalnum :: "codepoint \<Rightarrow> bool"
  isspace :: "codepoint \<Rightarrow> bool"
  lower :: "pystr \<Rightarrow> pystr"
  set_order :: "pystr list \<Rightarrow> pystr list"
  format_1f :: "real \<Rightarrow> pystr"

definition strip :: "runtime \<Rightarrow> pystr \<Rightarrow> pystr" where
  "strip rt s = rev (dropWhile (isspace rt) (rev (dropWhile (isspace rt) s)))"

definition lstrip :: "runtime \<Rightarrow> pystr \<Rightarrow> pystr" where
  "lstrip rt s = dropWhile (isspace rt) s"

text \<open>
  A Python set of strings is modelled by the list of its elements in iteration order, which
  has no repetition. The file system maps a path to the lines of the text file there (each
  with its line terminator, as iterating the file yields them), or to \<open>None\<close> where
  \<open>open\<close> raises \<open>FileNotFoundError\<close>.
\<close>

type_synonym pyset = "pystr list"
type_synonym filesystem = "pystr \<Rightarrow> pystr list option"

section \<open>The word list and the detectors\<close>

definition load_common_words :: "runtime \<Rightarrow> filesystem \<Rightarrow> pystr \<Rightarrow> pyset" where
  "load_common_words rt fs path =
     (case fs path of
        None \<Rightarrow> []
      | Some f \<Rightarrow>
          set_order rt
            (map (\<lambda>line. lower rt (strip rt line))
               (filter (\<lambda>line. strip rt line \<noteq> [] \<and> \<not> startswith (lstrip rt line) (lit ''#'')) f)))"

definition find_dictionary_hits :: "runtime \<Rightarrow> pystr \<Rightarrow> pyset \<Rightarrow> pystr list" where
  \<comment> \<open>\<open>list.sort(key=len, reverse=True)\<close> is stable: equal lengths keep their order\<close>
  "find_dictionary_hits rt password common_words =
     (let s = lower rt password;
          hits = filter (\<lambda>w. length w \<ge> 4 \<and> substring_in w s) common_words
      in sort_key (\<lambda>w. - int (length w)) hits)"

definition estimate_entropy_bits :: "runtime \<Rightarrow> pystr \<Rightarrow> real" where
  "estimate_entropy_bits rt password =
     (let charset = (0::nat);
          charset = (if list_ex (islower rt) password then charset + 26 else charset);
          charset = (if list_ex (isupper rt) password then charset + 26 else charset);
          charset = (if list_ex (isdigit rt) password then charset + 10 else charset);
          charset = (if list_ex (\<lambda>c. \<not> isalnum rt c) password then charset + 33 else charset)
      in if charset = 0 then 0
         else real (length password) * log 2 (real charset))"

fun sequence_scan :: "pystr \<Rightarrow> int \<Rightarrow> nat list \<Rightarrow> bool" where
  \<comment> \<open>the \<open>for i in range(...)\<close> loop of \<open>has_simple_sequence\<close>, over the indices left\<close>
  "sequence_scan s min_len [] = False"
| "sequence_scan s min_len (i # rest) =
     (let chunk = slice s (int i) (int i + min_len);
          diffs = map (\<lambda>j. ord (chunk ! (j + 1)) - ord (chunk ! j)) (py_range (min_len - 1))
      in if list_all (\<lambda>d. d = 1) diffs \<or> list_all (\<lambda>d. d = - 1) diffs then True
         else sequence_scan s min_len rest)"

definition has_simple_sequence :: "runtime \<Rightarrow> pystr \<Rightarrow> int \<Rightarrow> bool" where
  "has_simple_sequence rt password min_len =
     (let s = lower rt password
      in sequence_scan s min_len (py_range (int (length s) - min_len + 1)))"

fun run_scan :: "pystr \<Rightarrow> int \<Rightarrow> int \<Rightarrow> nat list \<Rightarrow> bool" where
  \<comment> \<open>the \<open>for i in range(1, len(password))\<close> loop of \<open>has_repeated_run\<close>, with its counter\<close>
  "run_scan password run_len count [] = False"
| "run_scan password run_len count (i # rest) =
     (if password ! i = password ! (i - 1) then
        (let count = count + 1
         in if count \<ge> run_len then True else run_scan password run_len count rest)
      else run_scan password run_len 1 rest)"

definition has_repeated_run :: "pystr \<Rightarrow> int \<Rightarrow> bool" where
  "has_repeated_run password run_len =
     (if run_len \<le> 1 then False
      else run_scan password run_len 1 [1..<length password])"

definition strength_label :: "int \<Rightarrow> pystr" where
  "strength_label score =
     (if score < 30 then lit ''VERY WEAK''
      else if score < 50 then lit ''WEAK''
      else if score < 70 then lit ''OKAY''
      else lit ''STRONG'')"

section \<open>The scorer\<close>

fun dedupe_loop :: "'a set \<Rightarrow> 'a list \<Rightarrow> 'a list \<Rightarrow> 'a list" where
  "dedupe_loop seen out [] = out"
| "dedupe_loop seen out (x # items) =
     (if x \<notin> seen then dedupe_loop (insert x seen) (out @ [x]) items
      else dedupe_loop seen out items)"

definition dedupe_preserve_order :: "'a list \<Rightarrow> 'a list" where
  "dedupe_preserve_order items = dedupe_loop {} [] items"

text \<open>
  The three variables that \<open>calculate_score_and_suggestions\<close> updates as it goes. Each of its
  commented sections is a function from the tally before it to the tally after it.
\<close>

record tally =
  score :: int
  findings :: "pystr list"
  suggestions :: "pystr list"

definition common_words_txt :: pystr where
  \<comment> \<open>the default \<open>path\<close> of \<open>load_common_words\<close>\<close>
  "common_words_txt = lit ''common_words.txt''"

definition en_dash :: pystr where
  \<comment> \<open>U+2013, in four of the messages\<close>
  "en_dash = [8211]"

definition dictionary_check :: "runtime \<Rightarrow> filesystem \<Rightarrow> pystr \<Rightarrow> tally \<Rightarrow> tally" where
  "dictionary_check rt fs password t =
     (let common_words = load_common_words rt fs common_words_txt;
          hits = find_dictionary_hits rt password common_words
      in if hits \<noteq> [] then
           t\<lparr>findings := findings t @
                [lit ''Contains common word(s): '' @ join (lit '', '') (take 3 hits) @ lit ''.''],
             suggestions := suggestions t @
                [lit ''Avoid common words/names; use random phrases or a password manager.''],
             score := score t - 25\<rparr>
         else t)"

definition length_score :: "nat \<Rightarrow> tally \<Rightarrow> tally" where
  "length_score len t =
     (if len < 8 then
        t\<lparr>findings := findings t @ [lit ''Too short (< 8 characters).''],
          suggestions := suggestions t @
             [lit ''Increase length to at least 12'' @ en_dash @ lit ''14 characters.''],
          score := score t + 5\<rparr>
      else if len < 12 then
        t\<lparr>findings := findings t @ [lit ''Short (8'' @ en_dash @ lit ''11 characters).''],
          suggestions := suggestions t @
             [lit ''Increase length to 12'' @ en_dash @ lit ''14+ characters.''],
          score := score t + 20\<rparr>
      else if len < 16 then
        t\<lparr>findings := findings t @ [lit ''Good length (12'' @ en_dash @ lit ''15 characters).''],
          score := score t + 32\<rparr>
      else
        t\<lparr>findings := findings t @ [lit ''Great length (16+ characters).''],
          score := score t + 40\<rparr>)"

definition variety_score :: "runtime \<Rightarrow> pystr \<Rightarrow> tally \<Rightarrow> tally" where
  "variety_score rt password t =
     (let has_lower = list_ex (islower rt) password;
          has_upper = list_ex (isupper rt) password;
          has_digit = list_ex (isdigit rt) password;
          has_symbol = list_ex (\<lambda>c. \<not> isalnum rt c) password;
          categories = sum_list (map of_bool [has_lower, has_upper, has_digit, has_symbol]);
          t = t\<lparr>findings := findings t @
                   [lit ''Character types used: '' @ str_nat categories @ lit ''/4.''],
                 score := score t + int categories * 10\<rparr>
      in if categories < 3 then
           t\<lparr>suggestions := suggestions t @
                [lit ''Mix uppercase, lowercase, digits, and symbols.'']\<rparr>
         else t)"

definition entropy_bonus :: "runtime \<Rightarrow> real \<Rightarrow> tally \<Rightarrow> tally" where
  "entropy_bonus rt entropy t =
     (if entropy < 40 then
        t\<lparr>findings := findings t @
             [lit ''Low estimated entropy (~'' @ format_1f rt entropy @ lit '' bits).''],
          suggestions := suggestions t @ [lit ''Make it longer and less predictable.'']\<rparr>
      else if entropy < 70 then
        t\<lparr>findings := findings t @
             [lit ''Moderate estimated entropy (~'' @ format_1f rt entropy @ lit '' bits).''],
          score := score t + 10\<rparr>
      else
        t\<lparr>findings := findings t @
             [lit ''High estimated entropy (~'' @ format_1f rt entropy @ lit '' bits).''],
          score := score t + 20\<rparr>)"

definition sequence_penalty :: "runtime \<Rightarrow> pystr \<Rightarrow> tally \<Rightarrow> tally" where
  "sequence_penalty rt password t =
     (if has_simple_sequence rt password 4 then
        t\<lparr>findings := findings t @ [lit ''Contains a simple sequence (e.g., 1234 / abcd).''],
          suggestions := suggestions t @ [lit ''Avoid sequences like 1234 or abcd.''],
          score := score t - 15\<rparr>
      else t)"

definition repeat_penalty :: "pystr \<Rightarrow> tally \<Rightarrow> tally" where
  "repeat_penalty password t =
     (if has_repeated_run password 4 then
        t\<lparr>findings := findings t @ [lit ''Contains repeated characters (e.g., aaaa / 1111).''],
          suggestions := suggestions t @ [lit ''Avoid repeated characters like aaaa.''],
          score := score t - 15\<rparr>
      else t)"

definition empty_password :: "tally \<Rightarrow> tally" where
  "empty_password t =
     t\<lparr>findings := findings t @ [lit ''Password is empty.''],
       suggestions := suggestions t @
          [lit ''Use a password manager to generate a long random password.'']\<rparr>"

definition calculate_score_and_suggestions ::
  "runtime \<Rightarrow> filesystem \<Rightarrow> pystr \<Rightarrow> int \<times> pystr list \<times> pystr list \<times> real" where
  "calculate_score_and_suggestions rt fs password =
     (let t = \<lparr>score = 0, findings = [], suggestions = []\<rparr>;
          len = length password;
          entropy = estimate_entropy_bits rt password;
          t = dictionary_check rt fs password t
      in if len = 0 then
           (let t = empty_password t
            in (0, findings t, dedupe_preserve_order (suggestions t), entropy))
         else
           (let t = length_score len t;
                t = variety_score rt password t;
                t = entropy_bonus rt entropy t;
                t = sequence_penalty rt password t;
                t = repeat_penalty password t;
                t = t\<lparr>score := max 0 (min (score t) 100)\<rparr>
            in (score t, findings t, dedupe_preserve_order (suggestions t), entropy)))"

section \<open>Reference definitions, and a concrete runtime\<close>

text \<open>
  The spec's wording of deduplication: the elements of a list at the positions where they
  occur for the first time, in the order of these positions.
\<close>

definition spec_first_occurrences :: "'a list \<Rightarrow> 'a list" where
  "spec_first_occurrences xs =
     map (\<lambda>i. xs ! i) (filter (\<lambda>i. xs ! i \<notin> set (take i xs)) [0..<length xs])"

text \<open>The spec's wording of the size of the character set: the sum over the classes present.\<close>

definition spec_charset_size :: "runtime \<Rightarrow> pystr \<Rightarrow> nat" where
  "spec_charset_size rt password =
     (if \<exists>c \<in> set password. islower rt c then 26 else 0) +
     (if \<exists>c \<in> set password. isupper rt c then 26 else 0) +
     (if \<exists>c \<in> set password. isdigit rt c then 10 else 0) +
     (if \<exists>c \<in> set password. \<not> isalnum rt c then 33 else 0)"

text \<open>
  The spec's wording of the score of a non-empty password: the sum of the six signals,
  clamped into the range from 0 to 100.
\<close>

definition spec_score :: "runtime \<Rightarrow> filesystem \<Rightarrow> pystr \<Rightarrow> int" where
  "spec_score rt fs password =
     (let hits = find_dictionary_hits rt password (load_common_words rt fs common_words_txt);
          n = length password;
          classes = length (filter (\<lambda>cls. \<exists>c \<in> set password. cls c)
                      [islower rt, isupper rt, isdigit rt, \<lambda>c. \<not> isalnum rt c]);
          entropy = estimate_entropy_bits rt password;
          total =
            (if hits \<noteq> [] then - 25 else 0) +
            (if n < 8 then 5 else if n < 12 then 20 else if n < 16 then 32 else 40) +
            10 * int classes +
            (if entropy < 40 then 0 else if entropy < 70 then 10 else 20) +
            (if has_simple_sequence rt password 4 then - 15 else 0) +
            (if has_repeated_run password 4 then - 15 else 0)
      in max 0 (min 100 total))"

text \<open>
  The spec's wording of a repeated run: some position among the first \<open>k\<close> starts
  \<open>n\<close> consecutive positions that hold the same character.
\<close>

definition run_within :: "pystr \<Rightarrow> nat \<Rightarrow> nat \<Rightarrow> bool" where
  "run_within p n k = (\<exists>i. i + n \<le> k \<and> (\<forall>j < n. p ! (i + j) = p ! i))"

text \<open>
  The spec's wording of a simple sequence: a window of \<open>n\<close> characters starting at
  position \<open>i\<close> lies within the string, and its consecutive character codes all
  differ by \<open>+1\<close>, or all by \<open>-1\<close>.
\<close>

definition sequence_window :: "pystr \<Rightarrow> nat \<Rightarrow> nat \<Rightarrow> bool" where
  "sequence_window s n i =
     (i + n \<le> length s \<and>
      ((\<forall>j. Suc j < n \<longrightarrow> ord (s ! (i + Suc j)) - ord (s ! (i + j)) = 1) \<or>
       (\<forall>j. Suc j < n \<longrightarrow> ord (s ! (i + Suc j)) - ord (s ! (i + j)) = - 1)))"

text \<open>The test that one iteration of the loop of \<open>has_simple_sequence\<close> makes.\<close>

definition window_test :: "pystr \<Rightarrow> int \<Rightarrow> nat \<Rightarrow> bool" where
  "window_test s min_len i =
     (let chunk = slice s (int i) (int i + min_len);
          diffs = map (\<lambda>j. ord (chunk ! (j + 1)) - ord (chunk ! j)) (py_range (min_len - 1))
      in list_all (\<lambda>d. d = 1) diffs \<or> list_all (\<lambda>d. d = - 1) diffs)"

text \<open>
  The tally when \<open>calculate_score_and_suggestions\<close> reaches one of its two \<open>return\<close>
  statements, before the score is clamped and the suggestions are deduplicated.
\<close>

definition tally_at_return :: "runtime \<Rightarrow> filesystem \<Rightarrow> pystr \<Rightarrow> tally" where
  "tally_at_return rt fs password =
     (let t = dictionary_check rt fs password \<lparr>score = 0, findings = [], suggestions = []\<rparr>
      in if length password = 0 then empty_password t
         else repeat_penalty password
                (sequence_penalty rt password
                   (entropy_bonus rt (estimate_entropy_bits rt password)
                      (variety_score rt password (length_score (length password) t)))))"

text \<open>
  A runtime for concrete evaluation. On ASCII code points it agrees with CPython; the
  concrete inputs below are ASCII. Sets are iterated in order of first insertion.
\<close>

definition fixed_1f :: "real \<Rightarrow> pystr" where
  \<comment> \<open>a non-negative real to one decimal place\<close>
  "fixed_1f x =
     (let tenths = nat \<lfloor>x * 10 + 1 / 2\<rfloor>
      in str_nat (tenths div 10) @ lit ''.'' @ str_nat (tenths mod 10))"

definition ascii_rt :: runtime where
  "ascii_rt =
     \<lparr>islower = (\<lambda>c. 97 \<le> c \<and> c \<le> 122),
      isupper = (\<lambda>c. 65 \<le> c \<and> c \<le> 90),
      isdigit = (\<lambda>c. 48 \<le> c \<and> c \<le> 57),
      isalnum = (\<lambda>c. (97 \<le> c \<and> c \<le> 122) \<or> (65 \<le> c \<and> c \<le> 90) \<or> (48 \<le> c \<and> c \<le> 57)),
      isspace = (\<lambda>c. (9 \<le> c \<and> c \<le> 13) \<or> (28 \<le> c \<and> c \<le> 32)),
      lower = map (\<lambda>c. if 65 \<le> c \<and> c \<le> 90 then c + 32 else c),
      set_order = (\<lambda>xs. rev (remdups (rev xs))),
      format_1f = fixed_1f\<rparr>"

definition no_files :: filesystem where
  \<comment> \<open>a working directory without \<open>common_words.txt\<close>\<close>
  "no_files = (\<lambda>path. None)"

definition word_file :: "pystr list \<Rightarrow> filesystem" where
  \<comment> \<open>a working directory whose \<open>common_words.txt\<close> holds the given lines\<close>
  "word_file ls = (\<lambda>path. if path = common_words_txt then Some ls else None)"

definition two_files :: filesystem where
  \<comment> \<open>the same \<open>common_words.txt\<close>, and a second file beside it\<close>
  "two_files = (word_file [lit ''password'']) (lit ''notes.txt'' := Some [lit ''admin''])"

section \<open>Evaluation on concrete inputs\<close>

lemmas eval_defs = lit_def ord_def py_range_def slice_def slice_bound_def startswith_def
  strip_def lstrip_def common_words_txt_def en_dash_def load_common_words_def
  find_dictionary_hits_def has_simple_sequence_def has_repeated_run_def
  ascii_rt_def no_files_def word_file_def upt_rec

text \<open>
  The entropy is a multiple of a logarithm; comparing it with a whole number of bits is a
  comparison of natural numbers.
\<close>

lemma entropy_less_iff:
  assumes "0 < c"
  shows "(real n * log 2 (real c) < real k) = (c ^ n < 2 ^ k)"
proof -
  have "real n * log 2 (real c) = log 2 (real (c ^ n))"
    using assms by (simp add: log_nat_power)
  moreover have "(log 2 (real (c ^ n)) < real k) = (real (c ^ n) < 2 powr real k)"
    using assms by (intro log_less_iff) auto
  moreover have "(2::real) powr real k = real (2 ^ k)"
    by (simp add: powr_realpow)
  ultimately show ?thesis
    by (metis of_nat_less_iff)
qed

lemma entropy_band_eval:
  "0 < c \<Longrightarrow> (real n * log 2 (real c) < 40) = (c ^ n < 2 ^ 40)"
  "0 < c \<Longrightarrow> (real n * log 2 (real c) < 70) = (c ^ n < 2 ^ 70)"
  using entropy_less_iff [of c n 40] entropy_less_iff [of c n 70] by simp_all

section \<open>The score\<close>

lemma score_dictionary_check:
  "score (dictionary_check rt fs password t) =
     score t + (if find_dictionary_hits rt password (load_common_words rt fs common_words_txt) \<noteq> []
                then - 25 else 0)"
  by (simp add: dictionary_check_def Let_def)

lemma score_length_score:
  "score (length_score n t) =
     score t + (if n < 8 then 5 else if n < 12 then 20 else if n < 16 then 32 else 40)"
  by (simp add: length_score_def)

lemma score_variety_score:
  "score (variety_score rt password t) =
     score t + 10 * int (length (filter (\<lambda>cls. \<exists>c \<in> set password. cls c)
                      [islower rt, isupper rt, isdigit rt, \<lambda>c. \<not> isalnum rt c]))"
  by (simp add: variety_score_def Let_def list_ex_iff)

lemma score_entropy_bonus:
  "score (entropy_bonus rt e t) =
     score t + (if e < 40 then 0 else if e < 70 then 10 else 20)"
  by (simp add: entropy_bonus_def)

lemma score_sequence_penalty:
  "score (sequence_penalty rt password t) =
     score t + (if has_simple_sequence rt password 4 then - 15 else 0)"
  by (simp add: sequence_penalty_def)

lemma score_repeat_penalty:
  "score (repeat_penalty password t) =
     score t + (if has_repeated_run password 4 then - 15 else 0)"
  by (simp add: repeat_penalty_def)

lemmas score_steps = score_dictionary_check score_length_score score_variety_score
  score_entropy_bonus score_sequence_penalty score_repeat_penalty

lemma fst_calculate:
  "fst (calculate_score_and_suggestions rt fs password) =
     (if password = [] then 0 else max 0 (min (score (tally_at_return rt fs password)) 100))"
  by (simp add: calculate_score_and_suggestions_def tally_at_return_def Let_def)

text \<open>
  C1. For every password, every runtime and every content of the file system, the score
  that \<open>calculate_score_and_suggestions\<close> returns lies between 0 and 100. The example is a
  password whose running total is \<open>-25\<close> when the score is clamped.
\<close>

theorem score_in_range:
  "0 \<le> fst (calculate_score_and_suggestions rt fs password) \<and>
   fst (calculate_score_and_suggestions rt fs password) \<le> 100"
  by (simp add: fst_calculate)

theorem score_in_range_witness:
  "0 \<le> fst (calculate_score_and_suggestions ascii_rt (word_file [lit ''abcd'']) (lit ''abcd'')) \<and>
   fst (calculate_score_and_suggestions ascii_rt (word_file [lit ''abcd'']) (lit ''abcd'')) \<le> 100 \<and>
   score (tally_at_return ascii_rt (word_file [lit ''abcd'']) (lit ''abcd'')) = - 25"
proof -
  have "score (tally_at_return ascii_rt (word_file [lit ''abcd'']) (lit ''abcd'')) = - 25"
    using entropy_band_eval [of 26 4]
    by (simp add: tally_at_return_def score_steps estimate_entropy_bits_def Let_def eval_defs)
  then show ?thesis
    using score_in_range [of ascii_rt "word_file [lit ''abcd'']" "lit ''abcd''"] by simp
qed

text \<open>
  C2. For every non-empty password the score is the clamped sum that the spec describes:
  the dictionary penalty, the length band, ten points for each character class present,
  the entropy band, and the two pattern penalties.
\<close>

theorem score_is_clamped_sum:
  "password \<noteq> [] \<Longrightarrow>
     fst (calculate_score_and_suggestions rt fs password) = spec_score rt fs password"
  unfolding fst_calculate spec_score_def tally_at_return_def Let_def
  by (simp only: score_steps if_False list.size length_0_conv tally.simps)

theorem score_is_clamped_sum_witness:
  "lit ''Abcd1234!!'' \<noteq> [] \<and>
   fst (calculate_score_and_suggestions ascii_rt no_files (lit ''Abcd1234!!'')) = 55"
proof -
  have ne: "lit ''Abcd1234!!'' \<noteq> []"
    by (simp add: lit_def)
  have "spec_score ascii_rt no_files (lit ''Abcd1234!!'') = 55"
    using entropy_band_eval [of 95 10]
    by (simp add: spec_score_def estimate_entropy_bits_def Let_def eval_defs)
  then show ?thesis
    using ne score_is_clamped_sum [OF ne, of ascii_rt no_files] by simp
qed

section \<open>The entropy estimate\<close>

lemma charset_size_eq:
  "(let charset = (0::nat);
        charset = (if list_ex (islower rt) password then charset + 26 else charset);
        charset = (if list_ex (isupper rt) password then charset + 26 else charset);
        charset = (if list_ex (isdigit rt) password then charset + 10 else charset);
        charset = (if list_ex (\<lambda>c. \<not> isalnum rt c) password then charset + 33 else charset)
    in f charset) = f (spec_charset_size rt password)"
  by (simp add: spec_charset_size_def Let_def list_ex_iff)

text \<open>
  C5. The entropy estimate is the length times the binary logarithm of the size of the
  character set, the sum of 26, 26, 10 and 33 over the classes present; it is 0 when no
  class is present. (Over the reals: the rounding of the floating-point product is not
  modelled.)
\<close>

theorem entropy_formula:
  "estimate_entropy_bits rt password =
     (if spec_charset_size rt password = 0 then 0
      else real (length password) * log 2 (real (spec_charset_size rt password))) \<and>
   (\<not> (\<exists>c \<in> set password. islower rt c \<or> isupper rt c \<or> isdigit rt c \<or> \<not> isalnum rt c) \<longrightarrow>
      estimate_entropy_bits rt password = 0)"
proof -
  have eq: "estimate_entropy_bits rt password =
     (if spec_charset_size rt password = 0 then 0
      else real (length password) * log 2 (real (spec_charset_size rt password)))"
    unfolding estimate_entropy_bits_def by (rule charset_size_eq)
  moreover have "spec_charset_size rt password = 0"
    if "\<not> (\<exists>c \<in> set password. islower rt c \<or> isupper rt c \<or> isdigit rt c \<or> \<not> isalnum rt c)"
    using that by (auto simp: spec_charset_size_def)
  ultimately show ?thesis by simp
qed

theorem entropy_formula_witness:
  "estimate_entropy_bits ascii_rt (lit ''Passw0rd'') = 8 * log 2 62 \<and>
   estimate_entropy_bits ascii_rt [] = 0"
  using entropy_formula [of ascii_rt "lit ''Passw0rd''"] entropy_formula [of ascii_rt "[]"]
  by (simp add: spec_charset_size_def ascii_rt_def lit_def)

section \<open>The label\<close>

text \<open>
  C9. The label is VERY WEAK below 30, WEAK from 30 to 49, OKAY from 50 to 69 and STRONG
  from 70 on, with the six boundary values of the spec.
\<close>

theorem strength_label_bands:
  "(n < 30 \<longrightarrow> strength_label n = lit ''VERY WEAK'') \<and>
   (30 \<le> n \<and> n < 50 \<longrightarrow> strength_label n = lit ''WEAK'') \<and>
   (50 \<le> n \<and> n < 70 \<longrightarrow> strength_label n = lit ''OKAY'') \<and>
   (70 \<le> n \<longrightarrow> strength_label n = lit ''STRONG'') \<and>
   strength_label 29 = lit ''VERY WEAK'' \<and> strength_label 30 = lit ''WEAK'' \<and>
   strength_label 49 = lit ''WEAK'' \<and> strength_label 50 = lit ''OKAY'' \<and>
   strength_label 69 = lit ''OKAY'' \<and> strength_label 70 = lit ''STRONG''"
  by (simp add: strength_label_def)

theorem strength_label_bands_witness:
  "strength_label 0 = lit ''VERY WEAK'' \<and> strength_label 42 = lit ''WEAK'' \<and>
   strength_label 55 = lit ''OKAY'' \<and> strength_label 100 = lit ''STRONG''"
  using strength_label_bands [of 0] strength_label_bands [of 42]
    strength_label_bands [of 55] strength_label_bands [of 100]
  by simp

section \<open>Deduplication\<close>

lemma dedupe_loop_out:
  "dedupe_loop seen out items = out @ dedupe_loop seen [] items"
proof (induction items arbitrary: seen out)
  case Nil
  then show ?case by simp
next
  case (Cons x items)
  show ?case
    using Cons.IH [of "insert x seen" "out @ [x]"] Cons.IH [of "insert x seen" "[x]"]
      Cons.IH [of seen out]
    by simp
qed

lemma dedupe_loop_Cons:
  "dedupe_loop seen [] (x # items) =
     (if x \<in> seen then dedupe_loop seen [] items else x # dedupe_loop (insert x seen) [] items)"
  using dedupe_loop_out [of "insert x seen" "[x]" items] by simp

lemma set_dedupe_loop:
  "set (dedupe_loop seen [] items) = set items - seen"
  by (induction items arbitrary: seen) (auto simp: dedupe_loop_Cons simp del: dedupe_loop.simps(2))

lemma distinct_dedupe_loop:
  "distinct (dedupe_loop seen [] items)"
  by (induction items arbitrary: seen)
     (auto simp: dedupe_loop_Cons set_dedupe_loop simp del: dedupe_loop.simps(2))

lemma dedupe_loop_first_occurrences:
  "dedupe_loop seen [] items =
     map (\<lambda>i. items ! i) (filter (\<lambda>i. items ! i \<notin> seen \<union> set (take i items)) [0..<length items])"
proof (induction items arbitrary: seen)
  case Nil
  then show ?case by simp
next
  case (Cons x items)
  have upt: "[0..<length (x # items)] = 0 # map Suc [0..<length items]"
    by (simp add: upt_conv_Cons map_Suc_upt del: upt_Suc)
  show ?case
    unfolding dedupe_loop_Cons upt
    by (auto simp: Cons.IH filter_map comp_def intro!: arg_cong [where f = "map _"] filter_cong)
qed

lemma dedupe_preserve_order_spec:
  "dedupe_preserve_order items = spec_first_occurrences items"
  unfolding dedupe_preserve_order_def spec_first_occurrences_def
  by (simp add: dedupe_loop_first_occurrences)

lemma distinct_dedupe_preserve_order:
  "distinct (dedupe_preserve_order items)"
  by (simp add: dedupe_preserve_order_def distinct_dedupe_loop)

lemma set_dedupe_preserve_order:
  "set (dedupe_preserve_order items) = set items"
  by (simp add: dedupe_preserve_order_def set_dedupe_loop)

lemma calculate_eq:
  "calculate_score_and_suggestions rt fs password =
     ((if password = [] then 0 else max 0 (min (score (tally_at_return rt fs password)) 100)),
      findings (tally_at_return rt fs password),
      dedupe_preserve_order (suggestions (tally_at_return rt fs password)),
      estimate_entropy_bits rt password)"
  by (simp add: calculate_score_and_suggestions_def tally_at_return_def Let_def)

text \<open>
  C10. The suggestions returned have no repetition and are the suggestions accumulated by
  the scorer, each at the place of its first occurrence; the findings returned are the
  findings accumulated, unchanged.
\<close>

theorem suggestions_deduplicated:
  "(case calculate_score_and_suggestions rt fs password of
      (s, f, sg, e) \<Rightarrow>
        distinct sg \<and>
        sg = spec_first_occurrences (suggestions (tally_at_return rt fs password)) \<and>
        f = findings (tally_at_return rt fs password))"
  using distinct_dedupe_preserve_order [of "suggestions (tally_at_return rt fs password)"]
  by (simp add: calculate_eq dedupe_preserve_order_spec)

lemma suggestions_steps:
  "suggestions (dictionary_check rt fs password t) =
     suggestions t @
     (if find_dictionary_hits rt password (load_common_words rt fs common_words_txt) \<noteq> []
      then [lit ''Avoid common words/names; use random phrases or a password manager.'']
      else [])"
  "suggestions (length_score n t) =
     suggestions t @
     (if n < 8 then [lit ''Increase length to at least 12'' @ en_dash @ lit ''14 characters.'']
      else if n < 12 then [lit ''Increase length to 12'' @ en_dash @ lit ''14+ characters.'']
      else [])"
  "suggestions (variety_score rt password t) =
     suggestions t @
     (if length (filter (\<lambda>cls. \<exists>c \<in> set password. cls c)
                  [islower rt, isupper rt, isdigit rt, \<lambda>c. \<not> isalnum rt c]) < 3
      then [lit ''Mix uppercase, lowercase, digits, and symbols.''] else [])"
  "suggestions (entropy_bonus rt e t) =
     suggestions t @ (if e < 40 then [lit ''Make it longer and less predictable.''] else [])"
  "suggestions (sequence_penalty rt password t) =
     suggestions t @
     (if has_simple_sequence rt password 4 then [lit ''Avoid sequences like 1234 or abcd.'']
      else [])"
  "suggestions (repeat_penalty password t) =
     suggestions t @
     (if has_repeated_run password 4 then [lit ''Avoid repeated characters like aaaa.''] else [])"
  by (simp_all add: dictionary_check_def length_score_def variety_score_def entropy_bonus_def
      sequence_penalty_def repeat_penalty_def Let_def list_ex_iff)

theorem suggestions_deduplicated_witness:
  "(case calculate_score_and_suggestions ascii_rt no_files (lit ''abcd1234'') of
      (s, f, sg, e) \<Rightarrow>
        distinct sg \<and>
        sg = [lit ''Increase length to 12'' @ en_dash @ lit ''14+ characters.'',
              lit ''Mix uppercase, lowercase, digits, and symbols.'',
              lit ''Avoid sequences like 1234 or abcd.''] \<and>
        f = findings (tally_at_return ascii_rt no_files (lit ''abcd1234'')))"
proof -
  have acc: "suggestions (tally_at_return ascii_rt no_files (lit ''abcd1234'')) =
      [lit ''Increase length to 12'' @ en_dash @ lit ''14+ characters.'',
       lit ''Mix uppercase, lowercase, digits, and symbols.'',
       lit ''Avoid sequences like 1234 or abcd.'']"
    using entropy_band_eval [of 36 8]
    by (simp add: tally_at_return_def suggestions_steps estimate_entropy_bits_def Let_def
        find_dictionary_hits_def load_common_words_def no_files_def has_simple_sequence_def
        has_repeated_run_def ascii_rt_def py_range_def slice_def slice_bound_def ord_def upt_rec
        lit_def [of "''abcd1234''"])
  have "spec_first_occurrences
      [lit ''Increase length to 12'' @ en_dash @ lit ''14+ characters.'',
       lit ''Mix uppercase, lowercase, digits, and symbols.'',
       lit ''Avoid sequences like 1234 or abcd.''] =
      [lit ''Increase length to 12'' @ en_dash @ lit ''14+ characters.'',
       lit ''Mix uppercase, lowercase, digits, and symbols.'',
       lit ''Avoid sequences like 1234 or abcd.'']"
    by (simp add: spec_first_occurrences_def upt_rec lit_def en_dash_def)
  then show ?thesis
    using suggestions_deduplicated [of ascii_rt no_files "lit ''abcd1234''"] acc
    by (simp split: prod.splits)
qed

section \<open>The empty password\<close>

lemma no_hits_in_empty_password:
  "lower rt [] = [] \<Longrightarrow> find_dictionary_hits rt [] ws = []"
proof -
  assume "lower rt [] = []"
  then have "filter (\<lambda>w. length w \<ge> 4 \<and> substring_in w (lower rt [])) ws = []"
    by (auto simp: filter_empty_conv)
  then show ?thesis
    by (simp add: find_dictionary_hits_def)
qed

text \<open>
  C4. For the empty password the scorer returns right after the dictionary check: the score
  is 0, the findings are those of the dictionary check followed by the empty marker, and the
  suggestions are those of the dictionary check followed by the advice to use a password
  manager, deduplicated, so they are not empty. Where lower-casing the empty string gives
  the empty string, the dictionary check adds nothing and the result is exactly the marker
  and the advice.
\<close>

theorem empty_password_result:
  "(let t = dictionary_check rt fs [] \<lparr>score = 0, findings = [], suggestions = []\<rparr>
    in calculate_score_and_suggestions rt fs [] =
         (0, findings t @ [lit ''Password is empty.''],
          dedupe_preserve_order
            (suggestions t @ [lit ''Use a password manager to generate a long random password.'']),
          estimate_entropy_bits rt [])) \<and>
   fst (calculate_score_and_suggestions rt fs []) = 0 \<and>
   lit ''Password is empty.'' \<in> set (fst (snd (calculate_score_and_suggestions rt fs []))) \<and>
   fst (snd (snd (calculate_score_and_suggestions rt fs []))) \<noteq> [] \<and>
   (lower rt [] = [] \<longrightarrow>
      calculate_score_and_suggestions rt fs [] =
        (0, [lit ''Password is empty.''],
         [lit ''Use a password manager to generate a long random password.''], 0))"
proof -
  let ?t = "dictionary_check rt fs [] \<lparr>score = 0, findings = [], suggestions = []\<rparr>"
  let ?tip = "lit ''Use a password manager to generate a long random password.''"
  have eq: "calculate_score_and_suggestions rt fs [] =
      (0, findings ?t @ [lit ''Password is empty.''],
       dedupe_preserve_order (suggestions ?t @ [?tip]), estimate_entropy_bits rt [])"
    by (simp add: calculate_score_and_suggestions_def empty_password_def Let_def)
  have "set (dedupe_preserve_order (suggestions ?t @ [?tip])) \<noteq> {}"
    by (simp add: set_dedupe_preserve_order)
  then have ne: "dedupe_preserve_order (suggestions ?t @ [?tip]) \<noteq> []"
    by auto
  have plain: "calculate_score_and_suggestions rt fs [] =
      (0, [lit ''Password is empty.''], [?tip], 0)" if "lower rt [] = []"
  proof -
    have "?t = \<lparr>score = 0, findings = [], suggestions = []\<rparr>"
      using no_hits_in_empty_password [OF that] by (simp add: dictionary_check_def)
    then show ?thesis
      by (simp add: eq dedupe_preserve_order_def estimate_entropy_bits_def)
  qed
  show ?thesis
    using eq ne plain by (simp add: Let_def)
qed

theorem empty_password_result_witness:
  "lower ascii_rt [] = [] \<and>
   calculate_score_and_suggestions ascii_rt (word_file [lit ''password'', lit ''admin'']) [] =
     (0, [lit ''Password is empty.''],
      [lit ''Use a password manager to generate a long random password.''], 0)"
  using empty_password_result [of ascii_rt "word_file [lit ''password'', lit ''admin'']"]
  by (simp add: ascii_rt_def)

section \<open>The word file\<close>

lemma load_common_words_cong:
  "fs path = fs' path \<Longrightarrow> load_common_words rt fs path = load_common_words rt fs' path"
  by (simp add: load_common_words_def)

text \<open>
  C3, as amended. \<open>calculate_score_and_suggestions\<close> takes the password only and loads
  the word set from the file \<open>common_words.txt\<close> of the working directory. Two file
  systems that agree on that file give the same word set, and two that give the same word
  set give the same result for every password: nothing else of the file system has an
  influence.
\<close>

theorem result_depends_on_word_file:
  "(fs common_words_txt = fs' common_words_txt \<longrightarrow>
      load_common_words rt fs common_words_txt = load_common_words rt fs' common_words_txt) \<and>
   (load_common_words rt fs common_words_txt = load_common_words rt fs' common_words_txt \<longrightarrow>
      calculate_score_and_suggestions rt fs password =
      calculate_score_and_suggestions rt fs' password)"
proof (intro conjI impI)
  assume "fs common_words_txt = fs' common_words_txt"
  then show "load_common_words rt fs common_words_txt = load_common_words rt fs' common_words_txt"
    by (rule load_common_words_cong)
next
  assume same: "load_common_words rt fs common_words_txt = load_common_words rt fs' common_words_txt"
  have "dictionary_check rt fs password t = dictionary_check rt fs' password t" for t
    unfolding dictionary_check_def same by (rule refl)
  then show "calculate_score_and_suggestions rt fs password =
      calculate_score_and_suggestions rt fs' password"
    unfolding calculate_score_and_suggestions_def by simp
qed

theorem result_depends_on_word_file_witness:
  "word_file [lit ''password''] common_words_txt = two_files common_words_txt \<and>
   word_file [lit ''password''] (lit ''notes.txt'') \<noteq> two_files (lit ''notes.txt'') \<and>
   calculate_score_and_suggestions ascii_rt (word_file [lit ''password'']) (lit ''password1'') =
   calculate_score_and_suggestions ascii_rt two_files (lit ''password1'')"
proof -
  have agree: "word_file [lit ''password''] common_words_txt = two_files common_words_txt"
    by (simp add: two_files_def word_file_def common_words_txt_def lit_def)
  have differ: "word_file [lit ''password''] (lit ''notes.txt'') \<noteq> two_files (lit ''notes.txt'')"
    by (simp add: two_files_def word_file_def common_words_txt_def lit_def)
  have "calculate_score_and_suggestions ascii_rt (word_file [lit ''password'']) (lit ''password1'') =
      calculate_score_and_suggestions ascii_rt two_files (lit ''password1'')"
    using agree
      result_depends_on_word_file [of "word_file [lit ''password'']" two_files ascii_rt
        "lit ''password1''"]
    by blast
  with agree differ show ?thesis
    by blast
qed

text \<open>
  C3, as stated, fails: the same password scores 30 in a directory without
  \<open>common_words.txt\<close> and 5 in a directory whose \<open>common_words.txt\<close> lists it.
\<close>

theorem word_file_changes_score:
  "fst (calculate_score_and_suggestions ascii_rt no_files (lit ''password'')) = 30 \<and>
   fst (calculate_score_and_suggestions ascii_rt (word_file [lit ''password'' @ [10]])
          (lit ''password'')) = 5"
proof -
  have "score (tally_at_return ascii_rt no_files (lit ''password'')) = 30"
    using entropy_band_eval [of 26 8]
    by (simp add: tally_at_return_def score_steps estimate_entropy_bits_def Let_def eval_defs)
  moreover have "score (tally_at_return ascii_rt (word_file [lit ''password'' @ [10]])
      (lit ''password'')) = 5"
    using entropy_band_eval [of 26 8]
    by (simp add: tally_at_return_def score_steps estimate_entropy_bits_def Let_def eval_defs)
  moreover have "lit ''password'' \<noteq> []"
    by (simp add: lit_def)
  ultimately show ?thesis
    by (simp add: fst_calculate)
qed

section \<open>The repeated-run detector\<close>

lemma run_within_mono: "run_within p n k \<Longrightarrow> k \<le> k' \<Longrightarrow> run_within p n k'"
  unfolding run_within_def using le_trans by blast

lemma run_within_new:
  assumes "run_within p n (Suc k)" and "\<not> run_within p n k"
  obtains i where "i + n = Suc k" and "\<forall>j < n. p ! (i + j) = p ! i"
proof -
  from assms(1) obtain i where i: "i + n \<le> Suc k" "\<forall>j < n. p ! (i + j) = p ! i"
    unfolding run_within_def by blast
  have "\<not> i + n \<le> k"
    using assms(2) i(2) unfolding run_within_def by blast
  with i(1) have "i + n = Suc k" by simp
  then show thesis using i(2) by (rule that)
qed

lemma run_member:
  assumes "\<forall>j < n. p ! (i + j) = p ! i" and "i \<le> b" and "b < i + n"
  shows "p ! b = p ! (i::nat)"
proof -
  from assms(2) obtain j where j: "b = i + j"
    by (auto simp: le_iff_add)
  with assms(3) have "j < n" by simp
  with assms(1) j show ?thesis by simp
qed


lemma run_scan_correct:
  assumes "2 \<le> n" "a + Suc d \<le> length p" "Suc d < n"
    and "\<forall>j \<le> d. p ! (a + j) = p ! a"
    and "\<forall>b. Suc b = a \<longrightarrow> p ! b \<noteq> p ! a"
    and "\<not> run_within p n (a + Suc d)"
  shows "run_scan p (int n) (int (Suc d)) [a + Suc d..<length p] = run_within p n (length p)"
  using assms
proof (induction "length p - (a + Suc d)" arbitrary: a d)
  case 0
  then have "a + Suc d = length p" by simp
  with "0.prems"(6) show ?case by simp
next
  case (Suc m)
  let ?k = "a + Suc d"
  from Suc.hyps(2) have k: "?k < length p" and m: "m = length p - Suc ?k"
    by simp_all
  have upt: "[?k..<length p] = ?k # [Suc ?k..<length p]"
    using k by (rule upt_conv_Cons)
  have prev: "p ! (?k - 1) = p ! a"
    using Suc.prems(4) by simp
  show ?case
  proof (cases "p ! ?k = p ! a")
    case same: True
    have eq: "\<forall>j \<le> Suc d. p ! (a + j) = p ! a"
      using Suc.prems(4) same by (auto simp: le_Suc_eq)
    show ?thesis
    proof (cases "Suc (Suc d) = n")
      case True
      have "a + n \<le> Suc ?k" using True by simp
      moreover have "\<forall>j < n. p ! (a + j) = p ! a"
        using eq True by auto
      ultimately have "run_within p n (Suc ?k)"
        unfolding run_within_def by blast
      then have "run_within p n (length p)"
        using k by (auto intro: run_within_mono)
      moreover have "int n \<le> int (Suc d) + 1"
        using True by simp
      ultimately show ?thesis
        unfolding upt using same prev by (simp add: Let_def del: of_nat_Suc)
    next
      case False
      with Suc.prems(3) have lt: "Suc (Suc d) < n" by simp
      have none: "\<not> run_within p n (a + Suc (Suc d))"
      proof
        assume "run_within p n (a + Suc (Suc d))"
        then have "run_within p n (Suc ?k)" by simp
        then obtain i where i: "i + n = Suc ?k" "\<forall>j < n. p ! (i + j) = p ! i"
          using Suc.prems(6) by (rule run_within_new)
        from i(1) lt obtain b where b: "Suc b = a" "i \<le> b"
          by (cases a) auto
        have "p ! b = p ! i"
          using i(2) b(2) by (rule run_member) (use i(1) b(1) in simp)
        moreover have "p ! a = p ! i"
          using i(2) by (rule run_member) (use i(1) b in simp_all)
        ultimately show False
          using Suc.prems(5) b(1) by simp
      qed
      have len: "a + Suc (Suc d) \<le> length p"
        using k by simp
      have m': "m = length p - (a + Suc (Suc d))"
        using m by simp
      have cnt: "int (Suc (Suc d)) = int (Suc d) + 1" by simp
      have "run_scan p (int n) (int (Suc (Suc d))) [a + Suc (Suc d)..<length p] =
          run_within p n (length p)"
        using m' Suc.prems(1) len lt eq Suc.prems(5) none by (rule Suc.hyps(1))
      then have "run_scan p (int n) (int (Suc d) + 1) [Suc ?k..<length p] =
          run_within p n (length p)"
        unfolding cnt by simp
      moreover have "\<not> int n \<le> int (Suc d) + 1" using lt by simp
      ultimately show ?thesis
        unfolding upt using same prev by (simp add: Let_def del: of_nat_Suc)
    qed
  next
    case other: False
    have none: "\<not> run_within p n (?k + Suc 0)"
    proof
      assume "run_within p n (?k + Suc 0)"
      then have "run_within p n (Suc ?k)" by simp
      then obtain i where i: "i + n = Suc ?k" "\<forall>j < n. p ! (i + j) = p ! i"
        using Suc.prems(6) by (rule run_within_new)
      have "p ! ?k = p ! i"
        using i(2) by (rule run_member) (use i(1) Suc.prems(1) in simp_all)
      moreover have "p ! (a + d) = p ! i"
        using i(2) by (rule run_member) (use i(1) Suc.prems(1) in simp_all)
      moreover have "p ! (a + d) = p ! a"
        using Suc.prems(4) by simp
      ultimately show False using other by simp
    qed
    have len: "?k + Suc 0 \<le> length p" using k by simp
    have m': "m = length p - (?k + Suc 0)" using m by simp
    have one: "Suc 0 < n" using Suc.prems(1) by simp
    have eq: "\<forall>j \<le> 0. p ! (?k + j) = p ! ?k" by simp
    have mx: "\<forall>b. Suc b = ?k \<longrightarrow> p ! b \<noteq> p ! ?k"
      using other Suc.prems(4) by auto
    have "run_scan p (int n) (int (Suc 0)) [?k + Suc 0..<length p] = run_within p n (length p)"
      using m' Suc.prems(1) len one eq mx none by (rule Suc.hyps(1))
    then show ?thesis
      unfolding upt using other prev by simp
  qed
qed

text \<open>
  C8. For a run length of at least 2, \<open>has_repeated_run\<close> is true exactly when some
  character fills that many consecutive positions of the password; for a run length of at
  most 1 it is false for every password.
\<close>

theorem repeated_run_iff:
  "(2 \<le> run_len \<longrightarrow>
      has_repeated_run password run_len =
      run_within password (nat run_len) (length password)) \<and>
   (run_len \<le> 1 \<longrightarrow> \<not> has_repeated_run password run_len)"
proof (intro conjI impI)
  assume r: "2 \<le> run_len"
  let ?n = "nat run_len"
  have n: "2 \<le> ?n" "int ?n = run_len"
    using r by simp_all
  show "has_repeated_run password run_len = run_within password ?n (length password)"
  proof (cases "password = []")
    case True
    then have "\<not> run_within password ?n (length password)"
      using n(1) by (simp add: run_within_def)
    with True r show ?thesis
      by (simp add: has_repeated_run_def)
  next
    case False
    then have len: "0 + Suc 0 \<le> length password"
      by (simp add: Suc_le_eq)
    have one: "Suc 0 < ?n" using n(1) by simp
    have none: "\<not> run_within password ?n (0 + Suc 0)"
      using n(1) by (simp add: run_within_def)
    have "run_scan password (int ?n) (int (Suc 0)) [0 + Suc 0..<length password] =
        run_within password ?n (length password)"
      using n(1) len one _ _ none by (rule run_scan_correct) simp_all
    then show ?thesis
      using r n(2) by (simp add: has_repeated_run_def)
  qed
next
  assume "run_len \<le> 1"
  then show "\<not> has_repeated_run password run_len"
    by (simp add: has_repeated_run_def)
qed

theorem repeated_run_iff_witness:
  "has_repeated_run (lit ''AAAA1111!!!!'') 4 \<and>
   run_within (lit ''AAAA1111!!!!'') 4 12 \<and>
   \<not> has_repeated_run (lit ''AAAB1112!!!?'') 4 \<and>
   \<not> run_within (lit ''AAAB1112!!!?'') 4 12 \<and>
   \<not> has_repeated_run (lit ''aaaa'') 1"
proof -
  have a: "has_repeated_run (lit ''AAAA1111!!!!'') 4"
    by (simp add: has_repeated_run_def lit_def upt_rec)
  have b: "\<not> has_repeated_run (lit ''AAAB1112!!!?'') 4"
    by (simp add: has_repeated_run_def lit_def upt_rec)
  have la: "length (lit ''AAAA1111!!!!'') = 12" and lb: "length (lit ''AAAB1112!!!?'') = 12"
    by (simp_all add: lit_def)
  show ?thesis
    using a b repeated_run_iff [of 4 "lit ''AAAA1111!!!!''"]
      repeated_run_iff [of 4 "lit ''AAAB1112!!!?''"] repeated_run_iff [of 1 "lit ''aaaa''"]
    by (simp add: la lb)
qed

section \<open>The simple-sequence detector\<close>

lemma sequence_scan_ex:
  "sequence_scan s min_len idx = (\<exists>i \<in> set idx. window_test s min_len i)"
  by (induction idx) (simp_all add: window_test_def Let_def)

lemma all_diffs:
  "list_all (\<lambda>d. d = v) (map f [0..<n - 1]) = (\<forall>j. Suc j < n \<longrightarrow> f j = (v::int))"
  by (auto simp: list_all_iff less_diff_conv)

lemma slice_window:
  assumes "1 \<le> m" and "i + nat m \<le> length s"
  shows "slice s (int i) (int i + m) = take (nat m) (drop i s)"
proof -
  have "slice_bound (length s) (int i) = i"
    using assms by (simp add: slice_bound_def)
  moreover have "nat (int i + m) = i + nat m"
    using assms(1) by (simp add: nat_add_distrib)
  then have "slice_bound (length s) (int i + m) = i + nat m"
    using assms by (simp add: slice_bound_def)
  ultimately show ?thesis
    by (simp add: slice_def)
qed

lemma window_test_iff:
  assumes "1 \<le> m" and "i + nat m \<le> length s"
  shows "window_test s m i = sequence_window s (nat m) i"
proof -
  let ?chunk = "take (nat m) (drop i s)"
  have nth: "?chunk ! j = s ! (i + j)" if "j < nat m" for j
    using that assms(2) by simp
  have rng: "py_range (m - 1) = [0..<nat m - 1]"
    using assms(1) by (simp add: py_range_def nat_diff_distrib)
  have diff: "ord (?chunk ! (j + 1)) - ord (?chunk ! j) = ord (s ! (i + Suc j)) - ord (s ! (i + j))"
    if "Suc j < nat m" for j
    using that nth [of j] nth [of "Suc j"] by simp
  have "list_all (\<lambda>d. d = v) (map (\<lambda>j. ord (?chunk ! (j + 1)) - ord (?chunk ! j)) [0..<nat m - 1]) =
      (\<forall>j. Suc j < nat m \<longrightarrow> ord (s ! (i + Suc j)) - ord (s ! (i + j)) = v)" for v
    unfolding all_diffs using diff by auto
  then show ?thesis
    unfolding window_test_def sequence_window_def Let_def slice_window [OF assms] rng
    using assms(2) by simp
qed

lemma set_py_range_windows:
  assumes "1 \<le> m"
  shows "set (py_range (int (length s) - m + 1)) = {i. i + nat m \<le> length s}"
proof -
  have "(i < nat (int (length s) - m + 1)) = (i + nat m \<le> length s)" for i
  proof -
    have "(i < nat (int (length s) - m + 1)) = (int i < int (length s) - m + 1)"
      by (rule zless_nat_eq_int_zless)
    also have "\<dots> = (int i + m \<le> int (length s))"
      by linarith
    also have "\<dots> = (int (i + nat m) \<le> int (length s))"
      using assms by simp
    also have "\<dots> = (i + nat m \<le> length s)"
      by (rule of_nat_le_iff)
    finally show ?thesis .
  qed
  then show ?thesis
    unfolding py_range_def by (simp add: set_eq_iff)
qed

lemma simple_sequence_iff:
  assumes "1 \<le> min_len"
  shows "has_simple_sequence rt password min_len =
      (\<exists>i. sequence_window (lower rt password) (nat min_len) i)"
proof -
  let ?s = "lower rt password"
  have "has_simple_sequence rt password min_len =
      (\<exists>i \<in> {i. i + nat min_len \<le> length ?s}. window_test ?s min_len i)"
    unfolding has_simple_sequence_def Let_def sequence_scan_ex set_py_range_windows [OF assms]
    by (rule refl)
  also have "\<dots> = (\<exists>i. i + nat min_len \<le> length ?s \<and> window_test ?s min_len i)"
    by blast
  also have "\<dots> = (\<exists>i. i + nat min_len \<le> length ?s \<and> sequence_window ?s (nat min_len) i)"
    using window_test_iff [OF assms] by blast
  also have "\<dots> = (\<exists>i. sequence_window ?s (nat min_len) i)"
    unfolding sequence_window_def by blast
  finally show ?thesis .
qed

lemma simple_sequence_short:
  assumes "1 \<le> min_len" and "int (length (lower rt password)) < min_len"
  shows "\<not> has_simple_sequence rt password min_len"
  using assms by (simp add: has_simple_sequence_def py_range_def)

lemma simple_sequence_degenerate:
  assumes "min_len \<le> 0"
  shows "has_simple_sequence rt password min_len"
proof -
  have "py_range (int (length (lower rt password)) - min_len + 1) =
      0 # [Suc 0..<nat (int (length (lower rt password)) - min_len + 1)]"
    using assms by (simp add: py_range_def upt_conv_Cons)
  moreover have "py_range (min_len - 1) = []"
    using assms by (simp add: py_range_def)
  ultimately show ?thesis
    by (simp add: has_simple_sequence_def Let_def)
qed

text \<open>
  Every character that the loop reads from a window is inside the window: the indexing
  \<open>chunk[j + 1]\<close> never raises.
\<close>

lemma simple_sequence_index_safe:
  assumes "i \<in> set (py_range (int (length s) - min_len + 1))"
    and "j \<in> set (py_range (min_len - 1))"
  shows "j + 1 < length (slice s (int i) (int i + min_len))"
proof -
  from assms(2) have m: "1 \<le> min_len" and j: "j + 1 < nat min_len"
    by (auto simp: py_range_def)
  from assms(1) have "i + nat min_len \<le> length s"
    using set_py_range_windows [OF m, of s] by simp
  then show ?thesis
    using j by (simp add: slice_window [OF m])
qed

text \<open>
  C7. For a window length of at least 1 the detector is exact (\<open>simple_sequence_iff\<close>,
  \<open>simple_sequence_short\<close>). For a window length of 0 or less it is true for every
  password (\<open>simple_sequence_degenerate\<close>), the empty password included: the first
  iteration finds no differences to check. Evaluated on the empty password:
\<close>

theorem simple_sequence_empty_window:
  "has_simple_sequence ascii_rt [] 0 \<and> has_simple_sequence ascii_rt [] (- 1) \<and>
   has_simple_sequence ascii_rt (lit ''zebra'') 0"
  by (simp add: has_simple_sequence_def ascii_rt_def lit_def py_range_def slice_def
      slice_bound_def upt_rec)

section \<open>The dictionary detector\<close>

lemma startswith_iff: "startswith s w = (\<exists>suf. s = w @ suf)"
proof
  assume "startswith s w"
  then have "s = w @ drop (length w) s"
    unfolding startswith_def by (metis append_take_drop_id)
  then show "\<exists>suf. s = w @ suf" ..
next
  assume "\<exists>suf. s = w @ suf"
  then show "startswith s w"
    unfolding startswith_def by auto
qed

lemma substring_in_iff: "substring_in w s = (\<exists>pre suf. s = pre @ w @ suf)"
proof (induction s)
  case Nil
  then show ?case by auto
next
  case (Cons c cs)
  have "(\<exists>pre suf. c # cs = pre @ w @ suf) =
      ((\<exists>suf. c # cs = w @ suf) \<or> (\<exists>pre suf. cs = pre @ w @ suf))"
  proof
    assume "\<exists>pre suf. c # cs = pre @ w @ suf"
    then obtain pre suf where ps: "c # cs = pre @ w @ suf" by blast
    show "(\<exists>suf. c # cs = w @ suf) \<or> (\<exists>pre suf. cs = pre @ w @ suf)"
    proof (cases pre)
      case Nil
      with ps show ?thesis by auto
    next
      case (Cons a pre')
      with ps have "cs = pre' @ w @ suf" by simp
      then show ?thesis by blast
    qed
  next
    assume "(\<exists>suf. c # cs = w @ suf) \<or> (\<exists>pre suf. cs = pre @ w @ suf)"
    then show "\<exists>pre suf. c # cs = pre @ w @ suf"
    proof
      assume "\<exists>suf. c # cs = w @ suf"
      then obtain suf where "c # cs = [] @ w @ suf" by auto
      then show ?thesis by blast
    next
      assume "\<exists>pre suf. cs = pre @ w @ suf"
      then obtain pre suf where "c # cs = (c # pre) @ w @ suf" by auto
      then show ?thesis by blast
    qed
  qed
  then show ?case
    by (simp add: Cons.IH startswith_iff)
qed

text \<open>
  C6. For a word set (a list without repetition, in its iteration order) the hits are
  exactly the words of at least 4 characters that occur as substrings of the lower-cased
  password, none of them twice, and they are ordered by length, longest first.
\<close>

theorem dictionary_hits_exact:
  "distinct common_words \<Longrightarrow>
     set (find_dictionary_hits rt password common_words) =
       {w \<in> set common_words. 4 \<le> length w \<and> (\<exists>pre suf. lower rt password = pre @ w @ suf)} \<and>
     distinct (find_dictionary_hits rt password common_words) \<and>
     sorted_wrt (\<lambda>a b. length b \<le> length a) (find_dictionary_hits rt password common_words)"
proof -
  assume d: "distinct common_words"
  let ?hits = "filter (\<lambda>w. length w \<ge> 4 \<and> substring_in w (lower rt password)) common_words"
  let ?key = "\<lambda>w::pystr. - int (length w)"
  have eq: "find_dictionary_hits rt password common_words = sort_key ?key ?hits"
    by (simp add: find_dictionary_hits_def)
  have "set (sort_key ?key ?hits) =
      {w \<in> set common_words. 4 \<le> length w \<and> (\<exists>pre suf. lower rt password = pre @ w @ suf)}"
    by (auto simp: substring_in_iff)
  moreover have "distinct (sort_key ?key ?hits)"
    using d by (simp add: distinct_sort)
  moreover have "sorted_wrt (\<lambda>a b. length b \<le> length a) (sort_key ?key ?hits)"
  proof -
    have "sorted (map ?key (sort_key ?key ?hits))"
      by (rule sorted_sort_key)
    then show ?thesis
      by (simp add: sorted_map)
  qed
  ultimately show ?thesis
    unfolding eq by blast
qed

theorem dictionary_hits_exact_witness:
  "distinct [lit ''pass'', lit ''password'', lit ''admin'', lit ''word'', lit ''234''] \<and>
   find_dictionary_hits ascii_rt (lit ''Password1234!'')
     [lit ''pass'', lit ''password'', lit ''admin'', lit ''word'', lit ''234''] =
     [lit ''password'', lit ''pass'', lit ''word''] \<and>
   {w \<in> set [lit ''pass'', lit ''password'', lit ''admin'', lit ''word'', lit ''234''].
      4 \<le> length w \<and> (\<exists>pre suf. lower ascii_rt (lit ''Password1234!'') = pre @ w @ suf)} =
     {lit ''password'', lit ''pass'', lit ''word''}"
proof -
  let ?ws = "[lit ''pass'', lit ''password'', lit ''admin'', lit ''word'', lit ''234'']"
  have d: "distinct ?ws"
    by (simp add: lit_def)
  have v: "find_dictionary_hits ascii_rt (lit ''Password1234!'') ?ws =
      [lit ''password'', lit ''pass'', lit ''word'']"
    by (simp add: find_dictionary_hits_def ascii_rt_def lit_def startswith_def)
  show ?thesis
    using d v dictionary_hits_exact [OF d, of ascii_rt "lit ''Password1234!''"]
    by (simp only: list.set)
qed

text \<open>
  Matching is plain substring containment: the password of the repository's leetspeak
  test contains none of the three words.
\<close>

lemma leetspeak_not_matched:
  "find_dictionary_hits ascii_rt (lit ''P@ssw0rd123!'')
     [lit ''password'', lit ''admin'', lit ''welcome''] = []"
  by (simp add: find_dictionary_hits_def ascii_rt_def lit_def startswith_def)

end
